theory Spec2Isabelle
  imports Complex_Main "HOL-Library.AList"
begin

section \<open>Data model of \<open>app.py\<close>\<close>

text \<open>
  A Python \<open>str\<close> is a sequence of Unicode code points, so OCR and user text is a list of
  code points (\<open>len\<close> is \<open>length\<close>). Script names, Tesseract language codes and messages
  are ASCII and stay HOL strings. A \<open>dict\<close> keeps insertion order, which \<open>max\<close> over
  \<open>counts.items()\<close> observes, so it is an association list.
\<close>

type_synonym pystr = "nat list"

text \<open>A compiled character class: the inclusive code-point intervals between its brackets.\<close>

type_synonym pattern = "(nat \<times> nat) list"

type_synonym breakdown = "(string \<times> nat) list"

datatype exn = ValueError string | RuntimeError string | EngineError string

fun str_exn :: "exn \<Rightarrow> string" where
  "str_exn (ValueError m) = m"
| "str_exn (RuntimeError m) = m"
| "str_exn (EngineError m) = m"

definition UNICODE_RANGES :: "(pattern \<times> string) list" where
  "UNICODE_RANGES =
    [([(0x0900, 0x097F)], ''Devanagari''),
     ([(0x0980, 0x09FF)], ''Bengali''),
     ([(0x0A00, 0x0A7F)], ''Gurmukhi''),
     ([(0x0A80, 0x0AFF)], ''Gujarati''),
     ([(0x0B00, 0x0B7F)], ''Oriya''),
     ([(0x0B80, 0x0BFF)], ''Tamil''),
     ([(0x0C00, 0x0C7F)], ''Telugu''),
     ([(0x0C80, 0x0CFF)], ''Kannada''),
     ([(0x0D00, 0x0D7F)], ''Malayalam''),
     ([(0x0D80, 0x0DFF)], ''Sinhala''),
     ([(0x41, 0x5A), (0x61, 0x7A)], ''ISO'')]"

definition TESS_LANG_SUGGEST :: "(string \<times> string) list" where
  "TESS_LANG_SUGGEST =
    [(''Devanagari'', ''hin''),
     (''Bengali'', ''ben''),
     (''Gurmukhi'', ''pan''),
     (''Gujarati'', ''guj''),
     (''Oriya'', ''ori''),
     (''Tamil'', ''tam''),
     (''Telugu'', ''tel''),
     (''Kannada'', ''kan''),
     (''Malayalam'', ''mal''),
     (''Sinhala'', ''sin''),
     (''ISO'', ''eng'')]"

text \<open>\<open>d.get(k, default)\<close>.\<close>

definition dict_get :: "('k \<times> 'v) list \<Rightarrow> 'k \<Rightarrow> 'v \<Rightarrow> 'v" where
  "dict_get d k dflt = (case map_of d k of None \<Rightarrow> dflt | Some v \<Rightarrow> v)"

text \<open>
  \<open>pattern.findall(text)\<close> for a one-character class: the characters of the text that lie
  in the class, in order.
\<close>

definition in_class :: "pattern \<Rightarrow> nat \<Rightarrow> bool" where
  "in_class p c = list_ex (\<lambda>(lo, hi). lo \<le> c \<and> c \<le> hi) p"

definition findall :: "pattern \<Rightarrow> pystr \<Rightarrow> nat list" where
  "findall p s = filter (in_class p) s"

text \<open>\<open>str.strip()\<close> removes the characters for which \<open>str.isspace\<close> holds from both ends.\<close>

definition py_isspace :: "nat \<Rightarrow> bool" where
  "py_isspace c \<longleftrightarrow>
     (9 \<le> c \<and> c \<le> 13) \<or> (28 \<le> c \<and> c \<le> 32) \<or> c = 0x85 \<or> c = 0xA0 \<or> c = 0x1680 \<or>
     (0x2000 \<le> c \<and> c \<le> 0x200A) \<or> c = 0x2028 \<or> c = 0x2029 \<or> c = 0x202F \<or>
     c = 0x205F \<or> c = 0x3000"

definition strip :: "pystr \<Rightarrow> pystr" where
  "strip s = rev (dropWhile py_isspace (rev (dropWhile py_isspace s)))"

section \<open>\<open>detect_script_with_confidence\<close>\<close>

text \<open>
  The function has two shapes of result: the early returns give a tuple of four values,
  the last return a tuple of five. Every caller unpacks five names from it, which raises
  \<open>ValueError\<close> on the shorter tuple. The quotient \<open>top_count / total_matched\<close> is taken
  in the rationals.
\<close>

datatype det_result =
    Tuple4 string nat nat breakdown
  | Tuple5 string nat nat breakdown rat

fun det_script :: "det_result \<Rightarrow> string" where
  "det_script (Tuple4 s tc tm bd) = s"
| "det_script (Tuple5 s tc tm bd c) = s"

fun det_top_count :: "det_result \<Rightarrow> nat" where
  "det_top_count (Tuple4 s tc tm bd) = tc"
| "det_top_count (Tuple5 s tc tm bd c) = tc"

fun det_total_matched :: "det_result \<Rightarrow> nat" where
  "det_total_matched (Tuple4 s tc tm bd) = tm"
| "det_total_matched (Tuple5 s tc tm bd c) = tm"

fun det_breakdown :: "det_result \<Rightarrow> breakdown" where
  "det_breakdown (Tuple4 s tc tm bd) = bd"
| "det_breakdown (Tuple5 s tc tm bd c) = bd"

fun det_confidence :: "det_result \<Rightarrow> rat option" where
  "det_confidence (Tuple4 s tc tm bd) = None"
| "det_confidence (Tuple5 s tc tm bd c) = Some c"

text \<open>One iteration of the loop over \<open>UNICODE_RANGES\<close>, on the pair \<open>(counts, total_matched)\<close>.\<close>

definition count_step ::
  "pystr \<Rightarrow> pattern \<times> string \<Rightarrow> breakdown \<times> nat \<Rightarrow> breakdown \<times> nat" where
  "count_step text = (\<lambda>(pattern, scriptname) (counts, total_matched).
     let found = findall pattern text in
     if found \<noteq> []
     then (AList.update scriptname (dict_get counts scriptname 0 + length found) counts,
           total_matched + length found)
     else (counts, total_matched))"

text \<open>
  \<open>max(items, key=...)\<close> keeps the first item whose key is maximal: a later item replaces
  the best one only when its key is strictly greater.
\<close>

fun max_from :: "('a \<Rightarrow> nat) \<Rightarrow> 'a \<Rightarrow> 'a list \<Rightarrow> 'a" where
  "max_from key best [] = best"
| "max_from key best (x # xs) = max_from key (if key best < key x then x else best) xs"

definition detect_script_with_confidence :: "pystr \<Rightarrow> det_result" where
  "detect_script_with_confidence text =
     (if text = [] then Tuple4 ''ISO'' 0 0 []
      else
        (case fold (count_step text) UNICODE_RANGES ([], 0) of (counts, total_matched) \<Rightarrow>
          (case counts of
             [] \<Rightarrow> Tuple4 ''ISO'' 0 0 []
           | kv # rest \<Rightarrow>
              (case max_from snd kv rest of (top_script, top_count) \<Rightarrow>
                 Tuple5 top_script top_count total_matched counts
                   (if total_matched > 0 then of_nat top_count / of_nat total_matched else 0)))))"

text \<open>
  \<open>a, b, c, d, e = t\<close>: unpacking five names from the result of the detection.
\<close>

definition unpack5 :: "det_result \<Rightarrow> exn + (string \<times> nat \<times> nat \<times> breakdown \<times> rat)" where
  "unpack5 t =
     (case t of
        Tuple4 s tc tm bd \<Rightarrow> Inl (ValueError ''not enough values to unpack (expected 5, got 4)'')
      | Tuple5 s tc tm bd c \<Rightarrow> Inr (s, tc, tm, bd, c))"

section \<open>\<open>api_detect\<close>\<close>

text \<open>
  The route reads the text of the request, unpacks five values from the detection and
  answers with them; an exception of the unpacking leaves the view function.
\<close>

record detect_json =
  dj_script :: string
  dj_top_count :: nat
  dj_total_matched :: nat
  dj_breakdown :: breakdown
  dj_confidence :: rat

definition api_detect :: "pystr \<Rightarrow> exn + detect_json" where
  "api_detect text =
     (case unpack5 (detect_script_with_confidence text) of
        Inl e \<Rightarrow> Inl e
      | Inr (detected, top_count, total_matched, breakdown, confidence) \<Rightarrow>
          Inr \<lparr>dj_script = detected, dj_top_count = top_count,
               dj_total_matched = total_matched, dj_breakdown = breakdown,
               dj_confidence = confidence\<rparr>)"

section \<open>\<open>ocr_image_with_smart_lang\<close>\<close>

text \<open>
  The module global \<open>pytesseract\<close> is \<open>None\<close> when the import failed. Otherwise its
  \<open>image_to_string(img)\<close> and \<open>image_to_string(img, lang=...)\<close> are one function of the
  image and the optional language that returns text or raises. The function returns its
  dictionary, or raises, together with the languages of the OCR calls it made, in order.
\<close>

type_synonym 'img ocr_engine = "'img \<Rightarrow> string option \<Rightarrow> exn + pystr"

datatype ocr_dict =
    OcrError string
  | OcrOk (ocr_text: pystr) (ocr_used_lang: string) (ocr_detected_script: string)
      (ocr_breakdown: breakdown)

definition ocr_image_with_smart_lang ::
  "'img ocr_engine option \<Rightarrow> 'img \<Rightarrow> (exn + ocr_dict) \<times> string option list" where
  "ocr_image_with_smart_lang pytesseract img =
     (case pytesseract of
        None \<Rightarrow>
          (Inr (OcrError ''pytesseract not available. Install pytesseract and Tesseract.''), [])
      | Some image_to_string \<Rightarrow>
          (case image_to_string img None of
             Inl e \<Rightarrow> (Inr (OcrError (''Tesseract initial OCR failed: '' @ str_exn e)), [None])
           | Inr raw0 \<Rightarrow>
               let txt0 = strip raw0 in
               (case unpack5 (detect_script_with_confidence txt0) of
                  Inl e \<Rightarrow> (Inl e, [None])
                | Inr (detected, top_count, total_matched, breakdown, _) \<Rightarrow>
                    let suggested_lang = dict_get TESS_LANG_SUGGEST detected ''eng'' in
                    if suggested_lang \<noteq> ''eng''
                    then
                      (case image_to_string img (Some suggested_lang) of
                         Inr raw1 \<Rightarrow>
                           let txt1 = strip raw1 in
                           (if length txt1 > length txt0
                            then Inr (OcrOk txt1 suggested_lang detected breakdown)
                            else if strip txt1 \<noteq> [] \<and> strip txt0 = []
                            then Inr (OcrOk txt1 suggested_lang detected breakdown)
                            else Inr (OcrOk txt0 ''eng'' detected breakdown),
                            [None, Some suggested_lang])
                       | Inl e \<Rightarrow>
                           (Inr (OcrOk txt0 ''eng'' detected breakdown),
                            [None, Some suggested_lang]))
                    else (Inr (OcrOk txt0 ''eng'' detected breakdown), [None]))))"

text \<open>
  The same function with the selection written as the single comparison of the lengths,
  to compare with the one above.
\<close>

definition ocr_image_single_rule ::
  "'img ocr_engine option \<Rightarrow> 'img \<Rightarrow> (exn + ocr_dict) \<times> string option list" where
  "ocr_image_single_rule pytesseract img =
     (case pytesseract of
        None \<Rightarrow>
          (Inr (OcrError ''pytesseract not available. Install pytesseract and Tesseract.''), [])
      | Some image_to_string \<Rightarrow>
          (case image_to_string img None of
             Inl e \<Rightarrow> (Inr (OcrError (''Tesseract initial OCR failed: '' @ str_exn e)), [None])
           | Inr raw0 \<Rightarrow>
               let txt0 = strip raw0 in
               (case unpack5 (detect_script_with_confidence txt0) of
                  Inl e \<Rightarrow> (Inl e, [None])
                | Inr (detected, top_count, total_matched, breakdown, _) \<Rightarrow>
                    let suggested_lang = dict_get TESS_LANG_SUGGEST detected ''eng'' in
                    if suggested_lang \<noteq> ''eng''
                    then
                      (case image_to_string img (Some suggested_lang) of
                         Inr raw1 \<Rightarrow>
                           let txt1 = strip raw1 in
                           (if length txt1 > length txt0
                            then Inr (OcrOk txt1 suggested_lang detected breakdown)
                            else Inr (OcrOk txt0 ''eng'' detected breakdown),
                            [None, Some suggested_lang])
                       | Inl e \<Rightarrow>
                           (Inr (OcrOk txt0 ''eng'' detected breakdown),
                            [None, Some suggested_lang]))
                    else (Inr (OcrOk txt0 ''eng'' detected breakdown), [None]))))"

section \<open>\<open>api_ocr\<close>\<close>





section \<open>\<open>perform_transliteration\<close>\<close>

text \<open>
  \<open>aksha_process\<close> is \<open>None\<close> when Aksharamukha is not installed, otherwise a function of
  source script, target script and text that returns text or raises. The function returns
  what the backend returns, or raises, together with the arguments of the backend calls it
  made.
\<close>

type_synonym translit_engine = "string \<Rightarrow> string \<Rightarrow> pystr \<Rightarrow> exn + pystr"

definition perform_transliteration ::
  "translit_engine option \<Rightarrow> string \<Rightarrow> string \<Rightarrow> pystr \<Rightarrow>
     (exn + pystr) \<times> (string \<times> string \<times> pystr) list" where
  "perform_transliteration aksha_process src_script tgt_script text =
     (case aksha_process of
        None \<Rightarrow>
          (Inl (RuntimeError
             ''Aksharamukha is not installed on server. Install with `pip install aksharamukha`.''),
           [])
      | Some process \<Rightarrow>
          if src_script = ''ISO''
          then
            (case unpack5 (detect_script_with_confidence text) of
               Inl e \<Rightarrow> (Inl e, [])
             | Inr (detected, top_count, total_matched, breakdown, _) \<Rightarrow>
                 let src_script' = (if detected \<noteq> ''ISO'' then detected else src_script) in
                 (process src_script' tgt_script text, [(src_script', tgt_script, text)]))
          else (process src_script tgt_script text, [(src_script, tgt_script, text)]))"

section \<open>Auxiliary notions for the statements\<close>

text \<open>
  The dictionary that the loop of the detection builds over a catalog whose script names are
  pairwise distinct: one entry per range with a match, in the order of the catalog.
\<close>

definition tally :: "pystr \<Rightarrow> (pattern \<times> string) list \<Rightarrow> breakdown" where
  "tally s cat = filter (\<lambda>kv. 0 < snd kv) (map (\<lambda>(p, n). (n, length (findall p s))) cat)"

text \<open>A character that lies in some range of the catalog.\<close>

definition catalog_char :: "nat \<Rightarrow> bool" where
  "catalog_char c = list_ex (\<lambda>(p, n). in_class p c) UNICODE_RANGES"

text \<open>
  An OCR engine that answers the pass without a language with \<open>r0\<close> and a pass with a
  language with \<open>r1\<close>, and a transliteration backend that returns its text.
\<close>

definition fixed_engine :: "exn + pystr \<Rightarrow> exn + pystr \<Rightarrow> unit ocr_engine" where
  "fixed_engine r0 r1 img lang = (case lang of None \<Rightarrow> r0 | Some l \<Rightarrow> r1)"

definition echo_engine :: translit_engine where
  "echo_engine src tgt s = Inr s"

section \<open>Trimming, counting and the maximum\<close>

lemma strip_Nil: "strip [] = []" by (simp add: strip_def)

lemma dropWhile_strip_fix:
  "dropWhile P (rev (dropWhile P (rev (dropWhile P s)))) = rev (dropWhile P (rev (dropWhile P s)))"
proof (cases "dropWhile P s")
  case Nil
  show ?thesis unfolding Nil by simp
next
  case (Cons a as)
  have na: "\<not> P a" using Cons hd_dropWhile[of P s] by simp
  have "\<exists>zs. dropWhile P (rev (a # as)) = zs @ [a]"
    using na by (cases "\<forall>x\<in>set as. P x") (auto simp: dropWhile_append)
  then obtain zs where "dropWhile P (rev (a # as)) = zs @ [a]" ..
  then show ?thesis using na Cons by simp
qed

lemma strip_idem: "strip (strip s) = strip s"
  unfolding strip_def by (simp add: dropWhile_strip_fix)

lemma strip_strip_Nil: "strip (strip s) = [] \<longleftrightarrow> strip s = []"
  by (simp add: strip_idem)

lemma update_fresh: "k \<notin> fst ` set al \<Longrightarrow> AList.update k v al = al @ [(k, v)]"
  by (induction al) auto

lemma dict_get_fresh: "k \<notin> fst ` set al \<Longrightarrow> dict_get al k d = d"
proof -
  assume "k \<notin> fst ` set al"
  then have "map_of al k = None" by (simp add: map_of_eq_None_iff)
  then show ?thesis by (simp add: dict_get_def)
qed

lemma fst_set_tally: "fst ` set (tally s cat) \<subseteq> snd ` set cat"
  by (force simp: tally_def)

lemma count_step_app:
  "count_step s (p, n) (c, t) =
     (if findall p s \<noteq> []
      then (AList.update n (dict_get c n 0 + length (findall p s)) c, t + length (findall p s))
      else (c, t))"
  by (simp add: count_step_def Let_def)

lemma fold_count_step:
  "distinct (map snd cat) \<Longrightarrow> fst ` set c0 \<inter> snd ` set cat = {} \<Longrightarrow>
   fold (count_step s) cat (c0, t0) =
     (c0 @ tally s cat, t0 + sum_list (map (\<lambda>(p, n). length (findall p s)) cat))"
proof (induction cat arbitrary: c0 t0)
  case Nil
  then show ?case by (simp add: tally_def)
next
  case (Cons a cat)
  obtain p n where a: "a = (p, n)" by (cases a)
  have fresh: "n \<notin> fst ` set c0" using Cons.prems(2) a by auto
  have d: "distinct (map snd cat)" and nn: "n \<notin> snd ` set cat" using Cons.prems(1) a by auto
  show ?case
  proof (cases "findall p s = []")
    case True
    have "fst ` set c0 \<inter> snd ` set cat = {}" using Cons.prems(2) by auto
    from Cons.IH[OF d this] True show ?thesis
      by (simp add: a count_step_app tally_def)
  next
    case False
    have "fst ` set (c0 @ [(n, length (findall p s))]) \<inter> snd ` set cat = {}"
      using Cons.prems(2) nn by auto
    from Cons.IH[OF d this] False show ?thesis
      by (simp add: a count_step_app tally_def update_fresh[OF fresh] dict_get_fresh[OF fresh])
  qed
qed

lemma distinct_names: "distinct (map snd UNICODE_RANGES)"
  by (simp add: UNICODE_RANGES_def)

lemma sum_snd_tally:
  "sum_list (map snd (tally s cat)) = sum_list (map (\<lambda>(p, n). length (findall p s)) cat)"
  by (induction cat) (auto simp: tally_def)

lemma fold_UNICODE_RANGES:
  "fold (count_step s) UNICODE_RANGES ([], 0) =
     (tally s UNICODE_RANGES, sum_list (map snd (tally s UNICODE_RANGES)))"
  using fold_count_step[of UNICODE_RANGES "[]" s 0] by (simp add: sum_snd_tally distinct_names)


lemma max_from_mem: "max_from key best xs \<in> set (best # xs)"
  by (induction xs arbitrary: best) auto

lemma max_from_ge: "x \<in> set (best # xs) \<Longrightarrow> key x \<le> key (max_from key best xs)"
proof (induction xs arbitrary: best x)
  case Nil
  then show ?case by simp
next
  case (Cons a xs)
  define b where "b = (if key best < key a then a else best)"
  have step: "max_from key best (a # xs) = max_from key b xs" by (simp add: b_def)
  have b_ge: "key b \<le> key (max_from key b xs)" by (rule Cons.IH) simp
  have ba: "key best \<le> key b" "key a \<le> key b" by (simp_all add: b_def)
  consider "x = best" | "x = a" | "x \<in> set xs" using Cons.prems by auto
  then show ?case
  proof cases
    case 1
    then have "key x \<le> key b" using ba by simp
    with b_ge show ?thesis unfolding step by linarith
  next
    case 2
    then have "key x \<le> key b" using ba by simp
    with b_ge show ?thesis unfolding step by linarith
  next
    case 3
    then have "x \<in> set (b # xs)" by simp
    from Cons.IH[OF this] show ?thesis unfolding step .
  qed
qed

lemma max_from_first:
  "best # xs = ys @ e # zs \<Longrightarrow> (\<forall>y\<in>set ys. key y < key e) \<Longrightarrow>
   (\<forall>z\<in>set zs. key z \<le> key e) \<Longrightarrow> max_from key best xs = e"
proof (induction xs arbitrary: best ys zs)
  case Nil
  then show ?case by (cases ys) auto
next
  case (Cons x xs)
  show ?case
  proof (cases ys)
    case Nil
    with Cons.prems have e: "e = best" and zs: "zs = x # xs" by auto
    have "\<not> key best < key x" using Cons.prems(3) e zs by auto
    moreover have "max_from key best xs = e"
      by (rule Cons.IH[of best "[]" xs]) (use Cons.prems(3) e zs in auto)
    ultimately show ?thesis by simp
  next
    case ys: (Cons y ys')
    with Cons.prems have y: "y = best" and rest: "x # xs = ys' @ e # zs" by auto
    have lt: "key best < key e" using Cons.prems(2) ys y by auto
    show ?thesis
    proof (cases ys')
      case Nil
      with rest have x: "x = e" and xs: "xs = zs" by auto
      have "max_from key e xs = e"
        by (rule Cons.IH[of e "[]" zs]) (use Cons.prems(3) xs in auto)
      with lt x show ?thesis by simp
    next
      case ys': (Cons y2 ys'')
      with rest have x: "x = y2" and xs: "xs = ys'' @ e # zs" by auto
      let ?b = "if key best < key x then x else best"
      have "key x < key e" using Cons.prems(2) ys ys' x by auto
      then have blt: "key ?b < key e" using lt by simp
      have "max_from key ?b xs = e"
      proof (rule Cons.IH[of ?b "?b # ys''" zs])
        show "?b # xs = (?b # ys'') @ e # zs" using xs by simp
        show "\<forall>y\<in>set (?b # ys''). key y < key e"
          using blt Cons.prems(2) ys ys' by auto
        show "\<forall>z\<in>set zs. key z \<le> key e" by (rule Cons.prems(3))
      qed
      then show ?thesis by simp
    qed
  qed
qed

lemma tally_Nil_iff:
  "tally s cat = [] \<longleftrightarrow> (\<forall>c\<in>set s. \<forall>(p, n)\<in>set cat. \<not> in_class p c)"
proof -
  have "tally s cat = [] \<longleftrightarrow> (\<forall>(p, n)\<in>set cat. findall p s = [])"
    by (force simp: tally_def filter_empty_conv)
  also have "\<dots> \<longleftrightarrow> (\<forall>c\<in>set s. \<forall>(p, n)\<in>set cat. \<not> in_class p c)"
    by (fastforce simp: findall_def filter_empty_conv)
  finally show ?thesis .
qed

lemma tally_catalog_Nil_iff:
  "tally s UNICODE_RANGES = [] \<longleftrightarrow> (\<forall>c\<in>set s. \<not> catalog_char c)"
  unfolding tally_Nil_iff catalog_char_def list_ex_iff by auto

lemma detect_unfold:
  "detect_script_with_confidence s =
     (case tally s UNICODE_RANGES of
        [] \<Rightarrow> Tuple4 ''ISO'' 0 0 []
      | kv # rest \<Rightarrow>
          Tuple5 (fst (max_from snd kv rest)) (snd (max_from snd kv rest))
            (sum_list (map snd (tally s UNICODE_RANGES))) (tally s UNICODE_RANGES)
            (if sum_list (map snd (tally s UNICODE_RANGES)) > 0
             then of_nat (snd (max_from snd kv rest)) /
                  of_nat (sum_list (map snd (tally s UNICODE_RANGES)))
             else 0))"
proof (cases "s = []")
  case True
  then show ?thesis by (simp add: detect_script_with_confidence_def tally_def findall_def UNICODE_RANGES_def)
next
  case False
  then show ?thesis
    by (simp add: detect_script_with_confidence_def fold_UNICODE_RANGES case_prod_beta
        split: list.splits)
qed

lemma detect_no_catalog_char:
  "\<forall>c\<in>set s. \<not> catalog_char c \<Longrightarrow> detect_script_with_confidence s = Tuple4 ''ISO'' 0 0 []"
  by (simp add: detect_unfold tally_catalog_Nil_iff[symmetric])


lemma tally_split:
  "0 < length (findall p s) \<Longrightarrow>
   tally s (before @ (p, name) # after) =
     tally s before @ (name, length (findall p s)) # tally s after"
  by (simp add: tally_def)

lemma snd_tally_mem:
  "kv \<in> set (tally s cat) \<Longrightarrow> \<exists>(q, m)\<in>set cat. snd kv = length (findall q s)"
  by (force simp: tally_def)

lemma distinct_fst_tally: "distinct (map snd cat) \<Longrightarrow> distinct (map fst (tally s cat))"
proof (induction cat)
  case Nil
  then show ?case by (simp add: tally_def)
next
  case (Cons a cat)
  obtain p n where a: "a = (p, n)" by (cases a)
  have "n \<notin> fst ` set (tally s cat)"
    using Cons.prems fst_set_tally[of s cat] a by auto
  moreover have "distinct (map fst (tally s cat))" using Cons by simp
  moreover have "tally s (a # cat) =
      (if 0 < length (findall p s) then (n, length (findall p s)) # tally s cat else tally s cat)"
    by (simp add: tally_def a)
  ultimately show ?case by simp
qed

lemma snd_tally_pos: "kv \<in> set (tally s cat) \<Longrightarrow> 0 < snd kv"
  by (simp add: tally_def)

lemma member_le_sum_list: "(x::nat) \<in> set xs \<Longrightarrow> x \<le> sum_list xs"
  by (induction xs) auto

lemma detect_Cons:
  assumes "tally s UNICODE_RANGES = kv # rest"
  shows "detect_script_with_confidence s =
     Tuple5 (fst (max_from snd kv rest)) (snd (max_from snd kv rest))
       (sum_list (map snd (kv # rest))) (kv # rest)
       (if sum_list (map snd (kv # rest)) > 0
        then of_nat (snd (max_from snd kv rest)) / of_nat (sum_list (map snd (kv # rest)))
        else 0)"
  unfolding detect_unfold assms by simp

text \<open>
  What holds of every five-tuple the detection returns: the total is the sum of the
  breakdown and is positive, the top count is the breakdown's entry of the script, and the
  confidence lies in \<open>(0, 1]\<close>.
\<close>

lemma detect_Tuple5_invariants:
  assumes "detect_script_with_confidence s = Tuple5 sc tc tm bd c"
  shows "tm = sum_list (map snd bd)" and "0 < tm" and "map_of bd sc = Some tc"
    and "0 < c" and "c \<le> 1" and "c = of_nat tc / of_nat tm"
proof -
  obtain kv rest where kv: "tally s UNICODE_RANGES = kv # rest"
    using assms by (cases "tally s UNICODE_RANGES") (simp_all add: detect_unfold)
  let ?m = "max_from snd kv rest"
  note eq = assms[unfolded detect_Cons[OF kv] det_result.inject]
  from eq have sc: "sc = fst ?m" and tc: "tc = snd ?m"
    and tm: "tm = sum_list (map snd (kv # rest))" and bd: "bd = kv # rest"
    by auto
  have mem: "?m \<in> set (kv # rest)" by (rule max_from_mem)
  then have pos: "0 < tc" using snd_tally_pos[of ?m s UNICODE_RANGES] kv tc by simp
  have "snd ?m \<in> set (map snd (kv # rest))" using mem by (simp only: set_map) (rule imageI)
  then have le: "tc \<le> tm" unfolding tc tm by (rule member_le_sum_list)
  show "tm = sum_list (map snd bd)" using tm bd by simp
  show tmpos: "0 < tm" using pos le by simp
  have "distinct (map fst (kv # rest))"
    using distinct_fst_tally[OF distinct_names, of s] kv by simp
  then have "map_of (kv # rest) (fst ?m) = Some (snd ?m)"
    using mem by (intro map_of_is_SomeI) simp_all
  then show "map_of bd sc = Some tc" using sc tc bd by simp
  show c: "c = of_nat tc / of_nat tm"
    using eq tmpos unfolding tm[symmetric] tc[symmetric] by simp
  show "0 < c" unfolding c using pos tmpos by simp
  show "c \<le> 1" unfolding c using le tmpos by simp
qed

lemma detect_Tuple4_sentinel:
  "detect_script_with_confidence s = Tuple4 sc tc tm bd \<Longrightarrow>
   sc = ''ISO'' \<and> tc = 0 \<and> tm = 0 \<and> bd = []"
  by (cases "tally s UNICODE_RANGES") (auto simp: detect_unfold)

lemma detect_Tuple4_iff:
  "(\<exists>sc tc tm bd. detect_script_with_confidence s = Tuple4 sc tc tm bd) \<longleftrightarrow>
   (\<forall>c\<in>set s. \<not> catalog_char c)"
  unfolding tally_catalog_Nil_iff[symmetric]
  by (cases "tally s UNICODE_RANGES") (auto simp: detect_unfold)

lemma detect_Tuple5_of_catalog_char:
  assumes "list_ex catalog_char s"
  obtains sc tc tm bd c where "detect_script_with_confidence s = Tuple5 sc tc tm bd c"
proof (cases "detect_script_with_confidence s")
  case (Tuple4 sc tc tm bd)
  then have "\<forall>c\<in>set s. \<not> catalog_char c" using detect_Tuple4_iff[of s] by blast
  with assms show ?thesis by (simp add: list_ex_iff)
next
  case (Tuple5 sc tc tm bd c)
  then show ?thesis by (rule that)
qed

text \<open>The detection on the sample texts of the examples below.\<close>

lemma detect_na: "detect_script_with_confidence [0x928] = Tuple5 ''Devanagari'' 1 1 [(''Devanagari'', 1)] 1"
  by (simp add: detect_script_with_confidence_def UNICODE_RANGES_def count_step_def findall_def in_class_def dict_get_def)

lemma detect_nama:
  "detect_script_with_confidence [0x928, 0x92E] =
     Tuple5 ''Devanagari'' 2 2 [(''Devanagari'', 2)] 1"
  by (simp add: detect_script_with_confidence_def UNICODE_RANGES_def count_step_def findall_def
      in_class_def dict_get_def)


lemma detect_hello:
  "detect_script_with_confidence [0x68, 0x65, 0x6C, 0x6C, 0x6F] =
     Tuple5 ''ISO'' 5 5 [(''ISO'', 5)] 1"
  by (simp add: detect_script_with_confidence_def UNICODE_RANGES_def count_step_def findall_def in_class_def dict_get_def)

lemma detect_vanakkam:
  "detect_script_with_confidence [0xBB5, 0xBA3, 0xB95, 0xBCD, 0xB95, 0xBAE, 0xBCD] =
     Tuple5 ''Tamil'' 7 7 [(''Tamil'', 7)] 1"
  by (simp add: detect_script_with_confidence_def UNICODE_RANGES_def count_step_def findall_def in_class_def dict_get_def)

lemma hin: "dict_get TESS_LANG_SUGGEST ''Devanagari'' ''eng'' = ''hin''"
  by (simp add: dict_get_def TESS_LANG_SUGGEST_def)

lemma strip_plain:
  "strip [0x928] = [0x928]"
  "strip [0x928, 0x92E] = [0x928, 0x92E]"
  "strip [0x20, 0x928, 0x92E, 0x938, 0x0A] = [0x928, 0x92E, 0x938]"
  by (simp_all add: strip_def py_isspace_def)

section \<open>Claims about the detection\<close>

text \<open>
  C5. When several scripts share the maximal character count, the detection returns the
  one whose range is declared first in \<open>UNICODE_RANGES\<close>: if the range \<open>(p, name)\<close> has a
  match, every range declared before it has strictly fewer matches and every range declared
  after it has at most as many, then the detected script is \<open>name\<close> and the top count is
  the count of \<open>p\<close>.
\<close>

theorem detect_tie_break_first_declared:
  assumes cat: "UNICODE_RANGES = before @ (p, name) # after"
    and pos: "0 < length (findall p s)"
    and earlier: "\<forall>(q, m)\<in>set before. length (findall q s) < length (findall p s)"
    and later: "\<forall>(q, m)\<in>set after. length (findall q s) \<le> length (findall p s)"
  shows "det_script (detect_script_with_confidence s) = name \<and>
         det_top_count (detect_script_with_confidence s) = length (findall p s)"
proof -
  let ?e = "(name, length (findall p s))"
  have split: "tally s UNICODE_RANGES = tally s before @ ?e # tally s after"
    unfolding cat by (rule tally_split[OF pos])
  have lt: "\<forall>y\<in>set (tally s before). snd y < snd ?e"
    using earlier snd_tally_mem[of _ s before] by fastforce
  have le: "\<forall>z\<in>set (tally s after). snd z \<le> snd ?e"
    using later snd_tally_mem[of _ s after] by fastforce
  have "tally s UNICODE_RANGES \<noteq> []" unfolding split by simp
  then obtain kv rest where kv: "tally s UNICODE_RANGES = kv # rest"
    by (cases "tally s UNICODE_RANGES") simp_all
  have "max_from snd kv rest = ?e"
    using max_from_first[of kv rest "tally s before" ?e "tally s after" snd] split kv lt le
    by simp
  then show ?thesis by (simp add: detect_unfold kv)
qed

text \<open>
  Two Latin letters come first in the text, then two Gurmukhi letters and one Devanagari
  letter: Gurmukhi and Latin tie at two, and Gurmukhi, declared earlier, wins.
\<close>

theorem detect_tie_break_first_declared_witness:
  "UNICODE_RANGES =
     [([(0x0900, 0x097F)], ''Devanagari''), ([(0x0980, 0x09FF)], ''Bengali'')] @
     ([(0x0A00, 0x0A7F)], ''Gurmukhi'') # drop 3 UNICODE_RANGES \<and>
   0 < length (findall [(0x0A00, 0x0A7F)] [0x61, 0x62, 0xA05, 0xA06, 0x905]) \<and>
   length (findall [(0x41, 0x5A), (0x61, 0x7A)] [0x61, 0x62, 0xA05, 0xA06, 0x905]) =
     length (findall [(0x0A00, 0x0A7F)] [0x61, 0x62, 0xA05, 0xA06, 0x905]) \<and>
   det_script (detect_script_with_confidence [0x61, 0x62, 0xA05, 0xA06, 0x905]) = ''Gurmukhi'' \<and>
   det_top_count (detect_script_with_confidence [0x61, 0x62, 0xA05, 0xA06, 0x905]) = 2"
  using detect_tie_break_first_declared
    [of "[([(0x0900, 0x097F)], ''Devanagari''), ([(0x0980, 0x09FF)], ''Bengali'')]"
        "[(0x0A00, 0x0A7F)]" "''Gurmukhi''" "drop 3 UNICODE_RANGES"
        "[0x61, 0x62, 0xA05, 0xA06, 0x905]"]
  by (simp add: UNICODE_RANGES_def findall_def in_class_def)

text \<open>
  C1. For the empty string the specification promises a result with script \<open>ISO\<close>, zero
  counts, an empty breakdown and confidence \<open>0\<close>, and no failure. The code returns the
  four-tuple \<open>("ISO", 0, 0, {})\<close>, which has no confidence component, and the route
  \<open>api_detect\<close>, which unpacks five values, raises \<open>ValueError\<close>.
\<close>

theorem detect_empty_lacks_confidence:
  "detect_script_with_confidence [] = Tuple4 ''ISO'' 0 0 [] \<and>
   det_confidence (detect_script_with_confidence []) = None \<and>
   api_detect [] = Inl (ValueError ''not enough values to unpack (expected 5, got 4)'')"
  by (simp add: detect_script_with_confidence_def api_detect_def unpack5_def)

text \<open>
  C3. The invariant that the confidence is \<open>0\<close> exactly when the total is \<open>0\<close> fails on a
  text of digits: the total is \<open>0\<close> and the result carries no confidence at all, so the
  route that reports the confidence raises. (On every five-tuple the invariants hold, see
  \<open>detect_Tuple5_invariants\<close>; there the total is positive.)
\<close>

theorem detect_digits_zero_total_without_confidence:
  "det_total_matched (detect_script_with_confidence [0x31, 0x32, 0x33]) = 0 \<and>
   det_confidence (detect_script_with_confidence [0x31, 0x32, 0x33]) = None \<and>
   api_detect [0x31, 0x32, 0x33] =
     Inl (ValueError ''not enough values to unpack (expected 5, got 4)'')"
proof -
  have "\<forall>c\<in>set [0x31, 0x32, 0x33::nat]. \<not> catalog_char c"
    by (simp add: catalog_char_def UNICODE_RANGES_def in_class_def)
  then have "detect_script_with_confidence [0x31, 0x32, 0x33] = Tuple4 ''ISO'' 0 0 []"
    by (rule detect_no_catalog_char)
  then show ?thesis by (simp add: api_detect_def unpack5_def)
qed

section \<open>Claims about the OCR selection\<close>

lemma second_branch_subsumed:
  "(if length (strip r1) > length (strip r0) then a
    else if strip (strip r1) \<noteq> [] \<and> strip (strip r0) = [] then a else b) =
   (if length (strip r1) > length (strip r0) then a else b)"
  by (auto simp: strip_idem)

text \<open>
  The function after a successful first pass, by the shape of the detection on the trimmed
  first-pass text.
\<close>

lemma ocr_first_pass_ok:
  assumes "its img None = Inr raw0"
  shows "ocr_image_with_smart_lang (Some its) img =
     (case detect_script_with_confidence (strip raw0) of
        Tuple4 s tc tm bd \<Rightarrow>
          (Inl (ValueError ''not enough values to unpack (expected 5, got 4)''), [None])
      | Tuple5 d tc tm bd c \<Rightarrow>
          if dict_get TESS_LANG_SUGGEST d ''eng'' \<noteq> ''eng''
          then
            (case its img (Some (dict_get TESS_LANG_SUGGEST d ''eng'')) of
               Inr raw1 \<Rightarrow>
                 (if length (strip raw1) > length (strip raw0)
                  then Inr (OcrOk (strip raw1) (dict_get TESS_LANG_SUGGEST d ''eng'') d bd)
                  else Inr (OcrOk (strip raw0) ''eng'' d bd),
                  [None, Some (dict_get TESS_LANG_SUGGEST d ''eng'')])
             | Inl e \<Rightarrow>
                 (Inr (OcrOk (strip raw0) ''eng'' d bd),
                  [None, Some (dict_get TESS_LANG_SUGGEST d ''eng'')]))
          else (Inr (OcrOk (strip raw0) ''eng'' d bd), [None]))"
  unfolding ocr_image_with_smart_lang_def Let_def second_branch_subsumed
  using assms by (simp add: unpack5_def split: det_result.splits sum.splits)


text \<open>
  C9. When the first pass succeeds and its trimmed text is empty or has no character of a
  catalog range, the detection yields four values, the unpacking of five raises, and
  \<open>ocr_image_with_smart_lang\<close> raises \<open>ValueError\<close> after the single first OCR call: it
  returns neither its success dictionary nor its error dictionary.
\<close>

theorem ocr_raises_on_unrecognized_first_pass:
  assumes "image_to_string img None = Inr raw0"
    and "\<forall>c\<in>set (strip raw0). \<not> catalog_char c"
  shows "ocr_image_with_smart_lang (Some image_to_string) img =
           (Inl (ValueError ''not enough values to unpack (expected 5, got 4)''), [None])"
  using assms(1) detect_no_catalog_char[OF assms(2)]
  by (simp add: ocr_image_with_smart_lang_def unpack5_def)

text \<open>A first pass that reads \<open>" 12.\n"\<close>.\<close>

theorem ocr_raises_on_unrecognized_first_pass_witness:
  "fixed_engine (Inr [0x20, 0x31, 0x32, 0x2E, 0x0A]) (Inr [0x928, 0x92E]) () None =
     Inr [0x20, 0x31, 0x32, 0x2E, 0x0A] \<and>
   strip [0x20, 0x31, 0x32, 0x2E, 0x0A] = [0x31, 0x32, 0x2E] \<and>
   \<not> catalog_char 0x31 \<and> \<not> catalog_char 0x32 \<and> \<not> catalog_char 0x2E \<and>
   ocr_image_with_smart_lang
     (Some (fixed_engine (Inr [0x20, 0x31, 0x32, 0x2E, 0x0A]) (Inr [0x928, 0x92E]))) () =
     (Inl (ValueError ''not enough values to unpack (expected 5, got 4)''), [None])"
proof -
  have s: "strip [0x20, 0x31, 0x32, 0x2E, 0x0A] = [0x31, 0x32, 0x2E]"
    by (simp add: strip_def py_isspace_def)
  have h1: "fixed_engine (Inr [0x20, 0x31, 0x32, 0x2E, 0x0A]) (Inr [0x928, 0x92E]) () None =
     Inr [0x20, 0x31, 0x32, 0x2E, 0x0A]" by (simp add: fixed_engine_def)
  have h2: "\<forall>c\<in>set (strip [0x20, 0x31, 0x32, 0x2E, 0x0A]). \<not> catalog_char c"
    unfolding s by (simp add: catalog_char_def UNICODE_RANGES_def in_class_def)
  show ?thesis
    using ocr_raises_on_unrecognized_first_pass
      [of "fixed_engine (Inr [0x20, 0x31, 0x32, 0x2E, 0x0A]) (Inr [0x928, 0x92E])" "()"
          "[0x20, 0x31, 0x32, 0x2E, 0x0A]"] h1 h2 s
    by (simp add: catalog_char_def UNICODE_RANGES_def in_class_def)
qed

text \<open>
  C7. Without an OCR backend the function returns the error dictionary for the missing
  backend and calls nothing. With a backend, it returns the error dictionary of the failed
  initial OCR, carrying the engine's message, when the first pass raises, after that one
  call and no other. When the first pass returns, the function returns a success
  dictionary, or raises the \<open>ValueError\<close> of the unpacking after the first call alone: it
  reports no engine error, whatever a second pass does.
\<close>

theorem ocr_failure_cases:
  "ocr_image_with_smart_lang None img =
     (Inr (OcrError ''pytesseract not available. Install pytesseract and Tesseract.''), []) \<and>
   (its img None = Inl e \<longrightarrow>
      ocr_image_with_smart_lang (Some its) img =
        (Inr (OcrError (''Tesseract initial OCR failed: '' @ str_exn e)), [None])) \<and>
   (its' img' None = Inr raw0 \<longrightarrow>
      (\<exists>t u d b. fst (ocr_image_with_smart_lang (Some its') img') = Inr (OcrOk t u d b)) \<or>
      ocr_image_with_smart_lang (Some its') img' =
        (Inl (ValueError ''not enough values to unpack (expected 5, got 4)''), [None]))"
proof (intro conjI impI)
  show "ocr_image_with_smart_lang None img =
     (Inr (OcrError ''pytesseract not available. Install pytesseract and Tesseract.''), [])"
    by (simp add: ocr_image_with_smart_lang_def)
next
  assume "its img None = Inl e"
  then show "ocr_image_with_smart_lang (Some its) img =
        (Inr (OcrError (''Tesseract initial OCR failed: '' @ str_exn e)), [None])"
    by (simp add: ocr_image_with_smart_lang_def)
next
  assume "its' img' None = Inr raw0"
  then show "(\<exists>t u d b. fst (ocr_image_with_smart_lang (Some its') img') = Inr (OcrOk t u d b)) \<or>
      ocr_image_with_smart_lang (Some its') img' =
        (Inl (ValueError ''not enough values to unpack (expected 5, got 4)''), [None])"
    by (simp add: ocr_first_pass_ok split: det_result.splits sum.splits)
qed


text \<open>
  A backend whose first pass raises, and one whose first pass reads a Devanagari letter and
  whose second pass raises.
\<close>

theorem ocr_failure_cases_witness:
  "ocr_image_with_smart_lang (None :: unit ocr_engine option) () =
     (Inr (OcrError ''pytesseract not available. Install pytesseract and Tesseract.''), []) \<and>
   fixed_engine (Inl (EngineError ''tesseract is not installed'')) (Inr [0x928]) () None =
     Inl (EngineError ''tesseract is not installed'') \<and>
   ocr_image_with_smart_lang
     (Some (fixed_engine (Inl (EngineError ''tesseract is not installed'')) (Inr [0x928]))) () =
     (Inr (OcrError ''Tesseract initial OCR failed: tesseract is not installed''), [None]) \<and>
   fixed_engine (Inr [0x928]) (Inl (EngineError ''Failed loading language'')) () None =
     Inr [0x928] \<and>
   ((\<exists>t u d b. fst (ocr_image_with_smart_lang
              (Some (fixed_engine (Inr [0x928]) (Inl (EngineError ''Failed loading language''))))
              ()) = Inr (OcrOk t u d b)) \<or>
    ocr_image_with_smart_lang
      (Some (fixed_engine (Inr [0x928]) (Inl (EngineError ''Failed loading language'')))) () =
      (Inl (ValueError ''not enough values to unpack (expected 5, got 4)''), [None]))"
  using ocr_failure_cases
    [of "()" "fixed_engine (Inl (EngineError ''tesseract is not installed'')) (Inr [0x928])"
        "EngineError ''tesseract is not installed''"
        "fixed_engine (Inr [0x928]) (Inl (EngineError ''Failed loading language''))" "()"
        "[0x928]"]
  by (simp add: fixed_engine_def)

text \<open>
  C6. When the first pass succeeds and a second pass is made, with language \<open>lang\<close>, the
  function returns a success dictionary whatever the second pass does; when the second pass
  raises, it is the one with the trimmed first-pass text and the default language \<open>eng\<close>.
  The retry never makes the function raise or report a failure.
\<close>

theorem ocr_second_pass_failure_swallowed:
  assumes "its img None = Inr raw0"
    and "snd (ocr_image_with_smart_lang (Some its) img) = [None, Some lang]"
  shows "(its img (Some lang) = Inl e \<longrightarrow>
            fst (ocr_image_with_smart_lang (Some its) img) =
              Inr (OcrOk (strip raw0) ''eng''
                     (det_script (detect_script_with_confidence (strip raw0)))
                     (det_breakdown (detect_script_with_confidence (strip raw0))))) \<and>
         (\<exists>t u. fst (ocr_image_with_smart_lang (Some its) img) =
              Inr (OcrOk t u
                     (det_script (detect_script_with_confidence (strip raw0)))
                     (det_breakdown (detect_script_with_confidence (strip raw0)))))"
proof (cases "detect_script_with_confidence (strip raw0)")
  case (Tuple4 s tc tm bd)
  then show ?thesis using assms(2) by (simp add: ocr_first_pass_ok[of its img raw0, OF assms(1)])
next
  case (Tuple5 d tc tm bd c)
  show ?thesis
  proof (cases "dict_get TESS_LANG_SUGGEST d ''eng'' = ''eng''")
    case True
    then show ?thesis using assms(2) Tuple5
      by (simp add: ocr_first_pass_ok[of its img raw0, OF assms(1)])
  next
    case False
    have lang: "lang = dict_get TESS_LANG_SUGGEST d ''eng''"
      using assms(2) Tuple5 False
      by (simp add: ocr_first_pass_ok[of its img raw0, OF assms(1)] split: sum.splits)
    show ?thesis
      using Tuple5 False unfolding lang
      by (simp add: ocr_first_pass_ok[of its img raw0, OF assms(1)] split: sum.splits)
  qed
qed


text \<open>
  The first pass reads two Devanagari letters; the pass with \<open>hin\<close> raises, or reads a
  digit.
\<close>

theorem ocr_second_pass_failure_swallowed_witness:
  "fixed_engine (Inr [0x928, 0x92E]) (Inl (EngineError ''Failed loading language'')) () None =
     Inr [0x928, 0x92E] \<and>
   snd (ocr_image_with_smart_lang
          (Some (fixed_engine (Inr [0x928, 0x92E])
                   (Inl (EngineError ''Failed loading language'')))) ()) =
     [None, Some ''hin''] \<and>
   fixed_engine (Inr [0x928, 0x92E]) (Inl (EngineError ''Failed loading language'')) ()
       (Some ''hin'') =
     Inl (EngineError ''Failed loading language'') \<and>
   fst (ocr_image_with_smart_lang
          (Some (fixed_engine (Inr [0x928, 0x92E])
                   (Inl (EngineError ''Failed loading language'')))) ()) =
     Inr (OcrOk [0x928, 0x92E] ''eng'' ''Devanagari'' [(''Devanagari'', 2)]) \<and>
   fixed_engine (Inr [0x928, 0x92E]) (Inr [0x31]) () None = Inr [0x928, 0x92E] \<and>
   snd (ocr_image_with_smart_lang
          (Some (fixed_engine (Inr [0x928, 0x92E]) (Inr [0x31]))) ()) = [None, Some ''hin''] \<and>
   (\<exists>t u. fst (ocr_image_with_smart_lang
                 (Some (fixed_engine (Inr [0x928, 0x92E]) (Inr [0x31]))) ()) =
            Inr (OcrOk t u ''Devanagari'' [(''Devanagari'', 2)]))"
proof -
  let ?E = "fixed_engine (Inr [0x928, 0x92E]) (Inl (EngineError ''Failed loading language''))"
  let ?F = "fixed_engine (Inr [0x928, 0x92E]) (Inr [0x31])"
  have s1: "strip [0x31] = [0x31]" by (simp add: strip_def py_isspace_def)
  have h1: "?E () None = Inr [0x928, 0x92E]" by (simp add: fixed_engine_def)
  have h2: "snd (ocr_image_with_smart_lang (Some ?E) ()) = [None, Some ''hin'']"
    by (simp add: ocr_image_with_smart_lang_def fixed_engine_def strip_plain detect_nama
        unpack5_def hin Let_def)
  have h3: "?E () (Some ''hin'') = Inl (EngineError ''Failed loading language'')"
    by (simp add: fixed_engine_def)
  have k1: "?F () None = Inr [0x928, 0x92E]" by (simp add: fixed_engine_def)
  have k2: "snd (ocr_image_with_smart_lang (Some ?F) ()) = [None, Some ''hin'']"
    by (simp add: ocr_image_with_smart_lang_def fixed_engine_def strip_plain detect_nama
        unpack5_def hin Let_def s1)
  show ?thesis
    using ocr_second_pass_failure_swallowed
      [of ?E "()" "[0x928, 0x92E]" "''hin''" "EngineError ''Failed loading language''",
       OF h1 h2]
      ocr_second_pass_failure_swallowed
      [of ?F "()" "[0x928, 0x92E]" "''hin''" "EngineError ''Failed loading language''",
       OF k1 k2]
      h1 h2 h3 k1 k2
    by (simp add: strip_plain detect_nama)
qed

text \<open>
  C2, as amended. The selection step is reached when the second pass was made, with
  language \<open>lang\<close>, and returned. Then the first-pass text is not empty, \<open>lang\<close> is the
  language suggested for the script detected on it and differs from \<open>eng\<close>, and the result
  is the second-pass text with \<open>lang\<close> exactly when it is strictly longer than the
  first-pass text, otherwise the first-pass text with \<open>eng\<close>.
\<close>

theorem ocr_selection_rule:
  assumes "its img None = Inr raw0"
    and "snd (ocr_image_with_smart_lang (Some its) img) = [None, Some lang]"
    and "its img (Some lang) = Inr raw1"
  shows "fst (ocr_image_with_smart_lang (Some its) img) =
           Inr (if length (strip raw1) > length (strip raw0)
                then OcrOk (strip raw1) lang
                       (det_script (detect_script_with_confidence (strip raw0)))
                       (det_breakdown (detect_script_with_confidence (strip raw0)))
                else OcrOk (strip raw0) ''eng''
                       (det_script (detect_script_with_confidence (strip raw0)))
                       (det_breakdown (detect_script_with_confidence (strip raw0)))) \<and>
         lang = dict_get TESS_LANG_SUGGEST
                  (det_script (detect_script_with_confidence (strip raw0))) ''eng'' \<and>
         lang \<noteq> ''eng'' \<and> strip raw0 \<noteq> []"
proof (cases "detect_script_with_confidence (strip raw0)")
  case (Tuple4 s tc tm bd)
  then show ?thesis using assms(2) by (simp add: ocr_first_pass_ok[of its img raw0, OF assms(1)])
next
  case (Tuple5 d tc tm bd c)
  have ne: "strip raw0 \<noteq> []"
    using Tuple5 by (auto simp: detect_script_with_confidence_def)
  show ?thesis
  proof (cases "dict_get TESS_LANG_SUGGEST d ''eng'' = ''eng''")
    case True
    then show ?thesis using assms(2) Tuple5 by (simp add: ocr_first_pass_ok[of its img raw0, OF assms(1)])
  next
    case False
    have lang: "lang = dict_get TESS_LANG_SUGGEST d ''eng''"
      using assms(2) Tuple5 False
      by (simp add: ocr_first_pass_ok[of its img raw0, OF assms(1)] split: sum.splits)
    show ?thesis
      using Tuple5 False assms(3) ne unfolding lang
      by (simp add: ocr_first_pass_ok[of its img raw0, OF assms(1)])
  qed
qed

text \<open>
  The first pass reads one Devanagari letter and the pass with \<open>hin\<close> reads three,
  surrounded by white space: the second text is selected. The first pass reads two letters
  and the pass with \<open>hin\<close> one: the first text is kept.
\<close>

theorem ocr_selection_rule_witness:
  "fixed_engine (Inr [0x928]) (Inr [0x20, 0x928, 0x92E, 0x938, 0x0A]) () None = Inr [0x928] \<and>
   snd (ocr_image_with_smart_lang
          (Some (fixed_engine (Inr [0x928]) (Inr [0x20, 0x928, 0x92E, 0x938, 0x0A]))) ()) =
     [None, Some ''hin''] \<and>
   fixed_engine (Inr [0x928]) (Inr [0x20, 0x928, 0x92E, 0x938, 0x0A]) () (Some ''hin'') =
     Inr [0x20, 0x928, 0x92E, 0x938, 0x0A] \<and>
   fst (ocr_image_with_smart_lang
          (Some (fixed_engine (Inr [0x928]) (Inr [0x20, 0x928, 0x92E, 0x938, 0x0A]))) ()) =
     Inr (OcrOk [0x928, 0x92E, 0x938] ''hin'' ''Devanagari'' [(''Devanagari'', 1)]) \<and>
   fixed_engine (Inr [0x928, 0x92E]) (Inr [0x928]) () None = Inr [0x928, 0x92E] \<and>
   snd (ocr_image_with_smart_lang
          (Some (fixed_engine (Inr [0x928, 0x92E]) (Inr [0x928]))) ()) =
     [None, Some ''hin''] \<and>
   fixed_engine (Inr [0x928, 0x92E]) (Inr [0x928]) () (Some ''hin'') = Inr [0x928] \<and>
   fst (ocr_image_with_smart_lang
          (Some (fixed_engine (Inr [0x928, 0x92E]) (Inr [0x928]))) ()) =
     Inr (OcrOk [0x928, 0x92E] ''eng'' ''Devanagari'' [(''Devanagari'', 2)])"
proof -
  let ?E = "fixed_engine (Inr [0x928]) (Inr [0x20, 0x928, 0x92E, 0x938, 0x0A])"
  let ?F = "fixed_engine (Inr [0x928, 0x92E]) (Inr [0x928])"
  have h1: "?E () None = Inr [0x928]" by (simp add: fixed_engine_def)
  have h2: "snd (ocr_image_with_smart_lang (Some ?E) ()) = [None, Some ''hin'']"
    by (simp add: ocr_image_with_smart_lang_def fixed_engine_def strip_plain detect_na
        unpack5_def hin Let_def)
  have h3: "?E () (Some ''hin'') = Inr [0x20, 0x928, 0x92E, 0x938, 0x0A]"
    by (simp add: fixed_engine_def)
  have k1: "?F () None = Inr [0x928, 0x92E]" by (simp add: fixed_engine_def)
  have k2: "snd (ocr_image_with_smart_lang (Some ?F) ()) = [None, Some ''hin'']"
    by (simp add: ocr_image_with_smart_lang_def fixed_engine_def strip_plain detect_nama
        unpack5_def hin Let_def)
  have k3: "?F () (Some ''hin'') = Inr [0x928]"
    by (simp add: fixed_engine_def)
  show ?thesis
    using ocr_selection_rule
      [of ?E "()" "[0x928]" "''hin''" "[0x20, 0x928, 0x92E, 0x938, 0x0A]", OF h1 h2 h3]
      ocr_selection_rule
      [of ?F "()" "[0x928, 0x92E]" "''hin''" "[0x928]", OF k1 k2 k3]
      h1 h2 h3 k1 k2 k3
    by (simp add: strip_plain detect_na detect_nama)
qed

text \<open>
  C2, as stated, fails: when the first pass reads nothing and a pass with a language would
  read two Devanagari letters, the function does not return the second text. It makes the
  first call only and raises.
\<close>

theorem ocr_blank_first_pass_counterexample:
  "fixed_engine (Inr []) (Inr [0x928, 0x92E]) () None = Inr [] \<and>
   fixed_engine (Inr []) (Inr [0x928, 0x92E]) () (Some ''hin'') = Inr [0x928, 0x92E] \<and>
   ocr_image_with_smart_lang (Some (fixed_engine (Inr []) (Inr [0x928, 0x92E]))) () =
     (Inl (ValueError ''not enough values to unpack (expected 5, got 4)''), [None])"
  by (simp add: ocr_image_with_smart_lang_def fixed_engine_def strip_def
      detect_script_with_confidence_def unpack5_def)

text \<open>
  C10. The texts compared in the selection are trimmed, so the second branch (second text
  not empty, first text empty) is taken only where the first branch already is: the
  function equals the one that selects by the single comparison of the lengths, for every
  backend and image.
\<close>

theorem ocr_selection_single_rule:
  "ocr_image_with_smart_lang pytesseract img = ocr_image_single_rule pytesseract img"
  unfolding ocr_image_with_smart_lang_def ocr_image_single_rule_def Let_def
    second_branch_subsumed ..

section \<open>Claims about the OCR route\<close>



section \<open>Claims about the transliteration\<close>

text \<open>
  The backend calls of the function: a source hint other than \<open>ISO\<close> goes to the backend as
  it is, with the target and the text. With the hint \<open>ISO\<close>, a detected script other than
  \<open>ISO\<close> replaces the hint in the one backend call; a detected \<open>ISO\<close> never does, and the
  backend is then called with \<open>ISO\<close> when the text has a character of the catalog.
\<close>

lemma perform_transliteration_calls:
  "(src \<noteq> ''ISO'' \<longrightarrow>
      perform_transliteration (Some process) src tgt s =
        (process src tgt s, [(src, tgt, s)])) \<and>
   (det_script (detect_script_with_confidence s') \<noteq> ''ISO'' \<longrightarrow>
      perform_transliteration (Some process) ''ISO'' tgt s' =
        (process (det_script (detect_script_with_confidence s')) tgt s',
         [(det_script (detect_script_with_confidence s'), tgt, s')])) \<and>
   (det_script (detect_script_with_confidence s'') = ''ISO'' \<longrightarrow>
      set (snd (perform_transliteration (Some process) ''ISO'' tgt s'')) \<subseteq>
        {(''ISO'', tgt, s'')} \<and>
      (list_ex catalog_char s'' \<longrightarrow>
         perform_transliteration (Some process) ''ISO'' tgt s'' =
           (process ''ISO'' tgt s'', [(''ISO'', tgt, s'')])))"
proof (intro conjI impI)
  assume "src \<noteq> ''ISO''"
  then show "perform_transliteration (Some process) src tgt s =
        (process src tgt s, [(src, tgt, s)])"
    by (simp add: perform_transliteration_def)
next
  assume ne: "det_script (detect_script_with_confidence s') \<noteq> ''ISO''"
  show "perform_transliteration (Some process) ''ISO'' tgt s' =
        (process (det_script (detect_script_with_confidence s')) tgt s',
         [(det_script (detect_script_with_confidence s'), tgt, s')])"
  proof (cases "detect_script_with_confidence s'")
    case (Tuple4 sc tc tm bd)
    with detect_Tuple4_sentinel[OF Tuple4] ne show ?thesis by simp
  next
    case (Tuple5 sc tc tm bd c)
    with ne show ?thesis by (simp add: perform_transliteration_def unpack5_def Let_def)
  qed
next
  assume "det_script (detect_script_with_confidence s'') = ''ISO''"
  then show "set (snd (perform_transliteration (Some process) ''ISO'' tgt s'')) \<subseteq>
        {(''ISO'', tgt, s'')}"
    by (cases "detect_script_with_confidence s''")
       (simp_all add: perform_transliteration_def unpack5_def Let_def)
next
  assume iso: "det_script (detect_script_with_confidence s'') = ''ISO''"
    and ex: "list_ex catalog_char s''"
  from ex obtain sc tc tm bd c
    where "detect_script_with_confidence s'' = Tuple5 sc tc tm bd c"
    by (rule detect_Tuple5_of_catalog_char)
  with iso show "perform_transliteration (Some process) ''ISO'' tgt s'' =
           (process ''ISO'' tgt s'', [(''ISO'', tgt, s'')])"
    by (simp add: perform_transliteration_def unpack5_def Let_def)
qed


text \<open>With the hint \<open>ISO\<close> and a text without a character of the catalog, no call is made.\<close>

lemma perform_transliteration_no_catalog_char:
  "\<forall>c\<in>set s. \<not> catalog_char c \<Longrightarrow>
   perform_transliteration (Some process) ''ISO'' tgt s =
     (Inl (ValueError ''not enough values to unpack (expected 5, got 4)''), [])"
  by (simp add: perform_transliteration_def unpack5_def detect_no_catalog_char)


text \<open>
  C8. The hint, possibly replaced, the target and the text are to be passed to the backend.
  With the hint \<open>ISO\<close> and the text \<open>"123"\<close> the unpacking of five values from the
  detection raises \<open>ValueError\<close> and the backend is never called.
\<close>

theorem transliteration_iso_hint_digits_raises:
  "perform_transliteration (Some echo_engine) ''ISO'' ''Tamil'' [0x31, 0x32, 0x33] =
     (Inl (ValueError ''not enough values to unpack (expected 5, got 4)''), [])"
proof -
  have "\<forall>c\<in>set [0x31, 0x32, 0x33::nat]. \<not> catalog_char c"
    by (simp add: catalog_char_def UNICODE_RANGES_def in_class_def)
  then show ?thesis by (rule perform_transliteration_no_catalog_char)
qed

end
